theory Spec2Isabelle
  imports Main "HOL-Library.AList"
begin

section \<open>The connection manager of the WebSocket example\<close>

text \<open>
  The development embeds the class \<^verbatim>\<open>ConnectionManager\<close> of
  \<^verbatim>\<open>agniapi-framework/examples/websocket_example.py\<close>.

  \<^item> A WebSocket handle is compared by \<^verbatim>\<open>==\<close>, \<^verbatim>\<open>in\<close> and \<^verbatim>\<open>list.remove\<close> only, which
    for these objects is object identity: a handle is its identity, a natural number.
  \<^item> \<^verbatim>\<open>active_connections\<close> is a Python list: order and repetitions are kept.
  \<^item> \<^verbatim>\<open>rooms\<close> is a Python dict of lists: an association list in insertion order, which is
    the order in which \<^verbatim>\<open>rooms.items()\<close> is walked.
  \<^item> The messages built by the manager carry the room and the member count; the field
    \<^verbatim>\<open>timestamp\<close> (the wall clock) is left out, the constant fields \<^verbatim>\<open>type\<close> and
    \<^verbatim>\<open>message\<close> are the constructor.
  \<^item> What a handle does when it is called belongs to the framework, not to the manager: an
    environment says for which handles \<^verbatim>\<open>accept()\<close> and \<^verbatim>\<open>send_json()\<close> raise during one
    call of a manager method.
  \<^item> Every \<^verbatim>\<open>send_json\<close> is recorded in a trace, so that "delivered" and "attempted" can
    be spoken about.
  \<^item> \<^verbatim>\<open>asyncio.create_task\<close> starts nothing by itself: the created broadcasts are queued,
    and a separate operation runs the oldest of them.
  \<^item> \<^verbatim>\<open>disconnect\<close> and the reads have no \<^verbatim>\<open>await\<close>. The other methods are given first as
    they run when no other task runs at their \<^verbatim>\<open>await\<close>s; \<^verbatim>\<open>broadcast_to_room\<close> is then
    given a second time, with the calls other tasks make while its sends are awaited.
\<close>

type_synonym websocket = nat

datatype message =
    UserJoined string nat
  | UserLeft string nat
  | Application string

datatype event = Sent websocket message | Failed websocket message

datatype error = AcceptError | SendError

record env =
  accept_raises :: "websocket \<Rightarrow> bool"
  send_raises :: "websocket \<Rightarrow> bool"

record manager =
  active_connections :: "websocket list"
  rooms :: "(string \<times> websocket list) list"
  tasks :: "(string \<times> message) list"
  trace :: "event list"

text \<open>\<^verbatim>\<open>ConnectionManager.__init__\<close>, with nothing sent and nothing scheduled.\<close>

definition init :: manager where
  "init = \<lparr>active_connections = [], rooms = [], tasks = [], trace = []\<rparr>"

text \<open>\<^verbatim>\<open>self.rooms.get(room, [])\<close>\<close>

definition room_members :: "manager \<Rightarrow> string \<Rightarrow> websocket list" where
  "room_members h room = (case map_of (rooms h) room of None \<Rightarrow> [] | Some connections \<Rightarrow> connections)"

text \<open>\<^verbatim>\<open>await connection.send_json(message)\<close>: raises or delivers, and is recorded either way.\<close>

definition send_json :: "env \<Rightarrow> websocket \<Rightarrow> message \<Rightarrow> manager \<Rightarrow> (error + unit) \<times> manager" where
  "send_json e connection message h =
     (if send_raises e connection
      then (Inl SendError, h\<lparr>trace := trace h @ [Failed connection message]\<rparr>)
      else (Inr (), h\<lparr>trace := trace h @ [Sent connection message]\<rparr>))"

subsection \<open>disconnect\<close>

text \<open>
  The loop over \<^verbatim>\<open>self.rooms.items()\<close>: a list that holds the handle loses its first
  occurrence (\<^verbatim>\<open>list.remove\<close>), and a \<^verbatim>\<open>user_left\<close> broadcast for that room is created with
  the length the list has then.
\<close>

definition remove_from_rooms :: "websocket \<Rightarrow> (string \<times> websocket list) list \<Rightarrow> (string \<times> websocket list) list" where
  "remove_from_rooms websocket items =
     map (\<lambda>(room, connections).
            (room, if websocket \<in> set connections then remove1 websocket connections else connections))
         items"

definition left_tasks :: "websocket \<Rightarrow> (string \<times> websocket list) list \<Rightarrow> (string \<times> message) list" where
  "left_tasks websocket items =
     concat (map (\<lambda>(room, connections).
                    if websocket \<in> set connections
                    then [(room, UserLeft room (length (remove1 websocket connections)))]
                    else [])
                 items)"

definition disconnect :: "manager \<Rightarrow> websocket \<Rightarrow> manager" where
  "disconnect h websocket =
     (let h1 = (if websocket \<in> set (active_connections h)
                then h\<lparr>active_connections := remove1 websocket (active_connections h)\<rparr>
                else h)
      in h1\<lparr>rooms := remove_from_rooms websocket (rooms h1),
             tasks := tasks h1 @ left_tasks websocket (rooms h1)\<rparr>)"

subsection \<open>Sending\<close>

text \<open>
  The first loop of both broadcasts, over the list it is given, with the manager and the list
  \<^verbatim>\<open>disconnected\<close> threaded through. \<^verbatim>\<open>broadcast_to_all\<close> has no \<^verbatim>\<open>exclude\<close>: it is the loop
  with \<open>None\<close>, which no handle equals.
\<close>

fun send_loop :: "env \<Rightarrow> message \<Rightarrow> websocket option \<Rightarrow> websocket list
    \<Rightarrow> manager \<times> websocket list \<Rightarrow> manager \<times> websocket list" where
  "send_loop e message exclude [] (h, disconnected) = (h, disconnected)"
| "send_loop e message exclude (connection # rest) (h, disconnected) =
     (if Some connection = exclude then send_loop e message exclude rest (h, disconnected)
      else (case send_json e connection message h of
              (Inr _, h1) \<Rightarrow> send_loop e message exclude rest (h1, disconnected)
            | (Inl _, h1) \<Rightarrow> send_loop e message exclude rest (h1, disconnected @ [connection])))"

definition broadcast_to_room :: "env \<Rightarrow> manager \<Rightarrow> string \<Rightarrow> message \<Rightarrow> websocket option \<Rightarrow> manager" where
  "broadcast_to_room e h room message exclude =
     (case map_of (rooms h) room of
        None \<Rightarrow> h
      | Some connections \<Rightarrow>
          (case send_loop e message exclude connections (h, []) of
             (h1, disconnected) \<Rightarrow> foldl disconnect h1 disconnected))"

definition broadcast_to_all :: "env \<Rightarrow> manager \<Rightarrow> message \<Rightarrow> manager" where
  "broadcast_to_all e h message =
     (case send_loop e message None (active_connections h) (h, []) of
        (h1, disconnected) \<Rightarrow> foldl disconnect h1 disconnected)"

text \<open>
  \<^verbatim>\<open>send_personal_message\<close>: the bare \<^verbatim>\<open>except\<close> swallows whatever \<^verbatim>\<open>send_json\<close> raises, and
  the method returns \<^verbatim>\<open>None\<close> on both paths.
\<close>

definition send_personal_message :: "env \<Rightarrow> manager \<Rightarrow> message \<Rightarrow> websocket \<Rightarrow> (error + unit) \<times> manager" where
  "send_personal_message e h message websocket =
     (case send_json e websocket message h of
        (Inr _, h1) \<Rightarrow> (Inr (), h1)
      | (Inl _, h1) \<Rightarrow> (Inr (), disconnect h1 websocket))"

subsection \<open>connect\<close>

text \<open>
  \<^verbatim>\<open>accept()\<close> is not guarded: when it raises, the exception leaves \<^verbatim>\<open>connect\<close> before anything
  is changed. Otherwise the handle is appended to the registry and to the room's list, which
  is created when the room is new, and the room is told, the new handle excepted.
\<close>

definition connect :: "env \<Rightarrow> manager \<Rightarrow> websocket \<Rightarrow> string \<Rightarrow> error + manager" where
  "connect e h websocket room =
     (if accept_raises e websocket then Inl AcceptError
      else
        let h1 = h\<lparr>active_connections := active_connections h @ [websocket]\<rparr>;
            h2 = (case map_of (rooms h1) room of
                    None \<Rightarrow> h1\<lparr>rooms := rooms h1 @ [(room, [websocket])]\<rparr>
                  | Some connections \<Rightarrow>
                      h1\<lparr>rooms := AList.update room (connections @ [websocket]) (rooms h1)\<rparr>)
        in Inr (broadcast_to_room e h2 room
                  (UserJoined room (length (room_members h2 room))) (Some websocket)))"

subsection \<open>Reads\<close>

record room_info =
  info_room :: string
  info_connections :: nat
  info_active :: bool

definition get_room_info :: "manager \<Rightarrow> string \<Rightarrow> room_info" where
  "get_room_info h room =
     \<lparr>info_room = room,
      info_connections = length (room_members h room),
      info_active = (map_of (rooms h) room \<noteq> None)\<rparr>"

record stats =
  total_connections :: nat
  stats_rooms :: "(string \<times> nat) list"

definition get_stats :: "manager \<Rightarrow> stats" where
  "get_stats h =
     \<lparr>total_connections = length (active_connections h),
      stats_rooms = map (\<lambda>(room, connections). (room, length connections)) (rooms h)\<rparr>"

subsection \<open>Sequences of calls\<close>

text \<open>
  A task made by \<^verbatim>\<open>create_task\<close> is a call of \<^verbatim>\<open>broadcast_to_room\<close> without \<^verbatim>\<open>exclude\<close>; the
  event loop starts the tasks in the order of their creation.
\<close>

definition run_task :: "env \<Rightarrow> manager \<Rightarrow> manager" where
  "run_task e h =
     (case tasks h of
        [] \<Rightarrow> h
      | (room, message) # rest \<Rightarrow> broadcast_to_room e (h\<lparr>tasks := rest\<rparr>) room message None)"

datatype op =
    Connect websocket string
  | Disconnect websocket
  | SendPersonal message websocket
  | BroadcastRoom string message "websocket option"
  | BroadcastAll message
  | RunTask
  | GetRoomInfo string
  | GetStats

text \<open>
  One call and the manager it leaves. A \<^verbatim>\<open>connect\<close> whose \<^verbatim>\<open>accept()\<close> raised has changed
  nothing; the two reads assign nothing.
\<close>

fun step :: "env \<Rightarrow> manager \<Rightarrow> op \<Rightarrow> manager" where
  "step e h (Connect websocket room) =
     (case connect e h websocket room of Inl _ \<Rightarrow> h | Inr h1 \<Rightarrow> h1)"
| "step e h (Disconnect websocket) = disconnect h websocket"
| "step e h (SendPersonal message websocket) = snd (send_personal_message e h message websocket)"
| "step e h (BroadcastRoom room message exclude) = broadcast_to_room e h room message exclude"
| "step e h (BroadcastAll message) = broadcast_to_all e h message"
| "step e h RunTask = run_task e h"
| "step e h (GetRoomInfo room) = h"
| "step e h GetStats = h"

text \<open>A sequence of calls, each with the environment it meets.\<close>

fun run :: "manager \<Rightarrow> (env \<times> op) list \<Rightarrow> manager" where
  "run h [] = h"
| "run h ((e, c) # calls) = run (step e h c) calls"


subsection \<open>Vocabulary of the statements\<close>

text \<open>
  The members a broadcast is addressed to, what one \<^verbatim>\<open>send_json\<close> leaves in the trace, the
  part of the trace written between two managers, and the handles to which a trace delivered a
  message.
\<close>

definition targeted :: "websocket option \<Rightarrow> websocket list \<Rightarrow> websocket list" where
  "targeted exclude connections = filter (\<lambda>connection. Some connection \<noteq> exclude) connections"

definition outcome :: "env \<Rightarrow> message \<Rightarrow> websocket \<Rightarrow> event" where
  "outcome e message connection =
     (if send_raises e connection then Failed connection message else Sent connection message)"

definition events_since :: "manager \<Rightarrow> manager \<Rightarrow> event list" where
  "events_since h h' = drop (length (trace h)) (trace h')"

fun delivered_to :: "message \<Rightarrow> event list \<Rightarrow> websocket list" where
  "delivered_to message [] = []"
| "delivered_to message (Sent connection m # events) =
     (if m = message then connection # delivered_to message events else delivered_to message events)"
| "delivered_to message (Failed connection m # events) = delivered_to message events"


text \<open>The environment in which nothing raises, and the one in which the sends to \<open>ws\<close> raise.\<close>

definition all_well :: env where
  "all_well = \<lparr>accept_raises = (\<lambda>_. False), send_raises = (\<lambda>_. False)\<rparr>"

definition dead :: "websocket \<Rightarrow> env" where
  "dead ws = \<lparr>accept_raises = (\<lambda>_. False), send_raises = (\<lambda>c. c = ws)\<rparr>"

text \<open>The manager \<^verbatim>\<open>connect\<close> has built when it starts its broadcast.\<close>

definition joined :: "manager \<Rightarrow> websocket \<Rightarrow> string \<Rightarrow> manager" where
  "joined h websocket room =
     (let h1 = h\<lparr>active_connections := active_connections h @ [websocket]\<rparr>
      in case map_of (rooms h1) room of
           None \<Rightarrow> h1\<lparr>rooms := rooms h1 @ [(room, [websocket])]\<rparr>
         | Some connections \<Rightarrow>
             h1\<lparr>rooms := AList.update room (connections @ [websocket]) (rooms h1)\<rparr>)"



text \<open>
  The two indexes agree and hold no handle twice: the handles of the registry are those of the
  rooms.
\<close>

definition linked :: "manager \<Rightarrow> bool" where
  "linked h =
     (distinct (active_connections h)
      \<and> (\<forall>room. distinct (room_members h room))
      \<and> (\<forall>ws. ws \<in> set (active_connections h) \<longleftrightarrow> (\<exists>room. ws \<in> set (room_members h room))))"

text \<open>How often the handle is listed in the rooms, all rooms taken together.\<close>

definition room_occurrences :: "(string \<times> websocket list) list \<Rightarrow> websocket \<Rightarrow> nat" where
  "room_occurrences items websocket =
     sum_list (map (\<lambda>(room, connections). count_list connections websocket) items)"

text \<open>No handle is listed in the rooms more often than in the registry.\<close>

definition covered :: "manager \<Rightarrow> bool" where
  "covered h = (\<forall>ws. room_occurrences (rooms h) ws \<le> count_list (active_connections h) ws)"

subsection \<open>The broadcast loop over the live list\<close>

text \<open>
  \<^verbatim>\<open>for connection in self.rooms[room]\<close> takes no copy: the iterator holds an index into the
  room's own list and looks at the list as it is when the next element is asked for. Each
  \<^verbatim>\<open>await connection.send_json(message)\<close> lets other tasks run. The schedule gives, for
  each awaited send in turn, the calls other tasks make on the manager during it; when the
  schedule is used up, no other task runs.
\<close>

definition during_await :: "(env \<times> op) list list \<Rightarrow> (env \<times> op) list" where
  "during_await sched = (case sched of [] \<Rightarrow> [] | calls # later \<Rightarrow> calls)"

function send_loop_live :: "env \<Rightarrow> message \<Rightarrow> websocket option \<Rightarrow> string
    \<Rightarrow> (env \<times> op) list list \<Rightarrow> nat \<Rightarrow> manager \<times> websocket list \<Rightarrow> manager \<times> websocket list" where
  "send_loop_live e message exclude room sched i (h, disconnected) =
     (if i < length (room_members h room)
      then
        (if Some (room_members h room ! i) = exclude
         then send_loop_live e message exclude room sched (Suc i) (h, disconnected)
         else send_loop_live e message exclude room (tl sched) (Suc i)
                (run (snd (send_json e (room_members h room ! i) message h)) (during_await sched),
                 if send_raises e (room_members h room ! i)
                 then disconnected @ [room_members h room ! i]
                 else disconnected))
      else (h, disconnected))"
  by pat_completeness auto
termination
proof (relation "measures [\<lambda>(e, message, exclude, room, sched, i, h, disconnected). length sched,
                           \<lambda>(e, message, exclude, room, sched, i, h, disconnected).
                              length (room_members h room) - i]")
  show "wf (measures [\<lambda>(e, message, exclude, room, sched, i, h, disconnected). length sched,
                      \<lambda>(e, message, exclude, room, sched, i, h, disconnected).
                         length (room_members (h::manager) room) - i])"
    by simp
next
  fix e message exclude room and sched :: "(env \<times> op) list list" and i h and disconnected :: "websocket list"
  assume "i < length (room_members h room)"
  then show "((e, message, exclude, room, sched, Suc i, h, disconnected),
              (e, message, exclude, room, sched, i, h, disconnected))
      \<in> measures [\<lambda>(e, message, exclude, room, sched, i, h, disconnected). length sched,
                   \<lambda>(e, message, exclude, room, sched, i, h, disconnected).
                      length (room_members h room) - i]"
    by simp
next
  fix e message exclude room and sched :: "(env \<times> op) list list" and i h and disconnected :: "websocket list"
  assume less: "i < length (room_members h room)"
  show "((e, message, exclude, room, tl sched, Suc i,
          run (snd (send_json e (room_members h room ! i) message h)) (during_await sched),
          if send_raises e (room_members h room ! i)
          then disconnected @ [room_members h room ! i] else disconnected),
         (e, message, exclude, room, sched, i, h, disconnected))
      \<in> measures [\<lambda>(e, message, exclude, room, sched, i, h, disconnected). length sched,
                   \<lambda>(e, message, exclude, room, sched, i, h, disconnected).
                      length (room_members h room) - i]"
  proof (cases sched)
    case Nil
    with less show ?thesis
      by (simp add: during_await_def send_json_def room_members_def)
  next
    case (Cons calls later)
    then show ?thesis by simp
  qed
qed

text \<open>
  The second loop, \<^verbatim>\<open>for connection in disconnected: self.disconnect(connection)\<close>, with the
  handles it has called \<^verbatim>\<open>disconnect\<close> on, in the order of the calls.
\<close>

fun cleanup :: "manager \<Rightarrow> websocket list \<Rightarrow> manager \<times> websocket list" where
  "cleanup h [] = (h, [])"
| "cleanup h (connection # rest) =
     (case cleanup (disconnect h connection) rest of
        (h', calls) \<Rightarrow> (h', connection # calls))"

text \<open>
  \<^verbatim>\<open>broadcast_to_room\<close> among other tasks: the manager it leaves and the calls of
  \<^verbatim>\<open>disconnect\<close> it has made.
\<close>

definition broadcast_to_room_live :: "env \<Rightarrow> manager \<Rightarrow> string \<Rightarrow> message \<Rightarrow> websocket option
    \<Rightarrow> (env \<times> op) list list \<Rightarrow> manager \<times> websocket list" where
  "broadcast_to_room_live e h room message exclude sched =
     (case map_of (rooms h) room of
        None \<Rightarrow> (h, [])
      | Some connections \<Rightarrow>
          (case send_loop_live e message exclude room sched 0 (h, []) of
             (h1, disconnected) \<Rightarrow> cleanup h1 disconnected))"

section \<open>Properties\<close>

subsection \<open>What the loops compute\<close>

lemma send_loop_eq:
  "send_loop e m ex cs (h, d) =
     (h\<lparr>trace := trace h @ map (outcome e m) (targeted ex cs)\<rparr>,
      d @ filter (send_raises e) (targeted ex cs))"
proof (induction cs arbitrary: h d)
  case Nil
  show ?case by (simp add: targeted_def)
next
  case (Cons c cs)
  show ?case
    by (simp add: Cons.IH send_json_def targeted_def outcome_def)
qed

lemma remove_from_rooms_eq:
  "remove_from_rooms w items = map (\<lambda>(room, connections). (room, remove1 w connections)) items"
  by (simp add: remove_from_rooms_def remove1_idem cong: map_cong split: prod.splits)

lemma disconnect_active [simp]:
  "active_connections (disconnect h w) = remove1 w (active_connections h)"
  by (simp add: disconnect_def remove1_idem)

lemma disconnect_rooms [simp]:
  "rooms (disconnect h w) = remove_from_rooms w (rooms h)"
  by (simp add: disconnect_def)

lemma disconnect_trace [simp]: "trace (disconnect h w) = trace h"
  by (simp add: disconnect_def)

lemma disconnect_tasks [simp]:
  "tasks (disconnect h w) = tasks h @ left_tasks w (rooms h)"
  by (simp add: disconnect_def)

lemma names_remove_from_rooms [simp]: "map fst (remove_from_rooms w items) = map fst items"
  by (induction items) (auto simp: remove_from_rooms_def)

lemma map_of_remove_from_rooms:
  "map_of (remove_from_rooms w items) room = map_option (remove1 w) (map_of items room)"
  by (induction items) (auto simp: remove_from_rooms_eq)

lemma room_members_disconnect [simp]:
  "room_members (disconnect h w) room = remove1 w (room_members h room)"
  by (simp add: room_members_def map_of_remove_from_rooms split: option.splits)

lemma foldl_disconnect_trace [simp]: "trace (foldl disconnect h ws) = trace h"
  by (induction ws arbitrary: h) simp_all

lemma foldl_disconnect_names [simp]:
  "map fst (rooms (foldl disconnect h ws)) = map fst (rooms h)"
  by (induction ws arbitrary: h) simp_all

lemma room_members_trace [simp]: "room_members (h\<lparr>trace := t\<rparr>) room = room_members h room"
  by (simp add: room_members_def)

lemma room_members_tasks [simp]: "room_members (h\<lparr>tasks := t\<rparr>) room = room_members h room"
  by (simp add: room_members_def)

text \<open>
  A broadcast is its sends, in the order of the list, followed by one \<^verbatim>\<open>disconnect\<close> for
  each send that raised. For a room that is not a key, both lists are empty.
\<close>

lemma broadcast_to_room_eq:
  "broadcast_to_room e h room m ex =
     foldl disconnect
       (h\<lparr>trace := trace h @ map (outcome e m) (targeted ex (room_members h room))\<rparr>)
       (filter (send_raises e) (targeted ex (room_members h room)))"
  by (simp add: broadcast_to_room_def room_members_def send_loop_eq targeted_def
      split: option.splits)

lemma broadcast_to_all_eq:
  "broadcast_to_all e h m =
     foldl disconnect
       (h\<lparr>trace := trace h @ map (outcome e m) (active_connections h)\<rparr>)
       (filter (send_raises e) (active_connections h))"
  by (simp add: broadcast_to_all_def send_loop_eq targeted_def)

lemma delivered_to_outcomes:
  "delivered_to m (map (outcome e m) cs) = filter (\<lambda>c. \<not> send_raises e c) cs"
  by (induction cs) (simp_all add: outcome_def)

lemma events_since_append [simp]:
  "trace h' = trace h @ evs \<Longrightarrow> events_since h h' = evs"
  by (simp add: events_since_def)

subsection \<open>send_personal_message\<close>

text \<open>
  C1, as the code has it. \<^verbatim>\<open>send_personal_message\<close> makes exactly one \<^verbatim>\<open>send_json\<close> call, to
  the handle it was given. When that call raises, \<^verbatim>\<open>disconnect\<close> is run on the handle, and the
  method then returns normally, as it does after a delivery: the caller gets no error.
\<close>

theorem send_personal_message_returns_normally:
  "fst (send_personal_message e h m ws) = Inr ()
   \<and> events_since h (snd (send_personal_message e h m ws)) = [outcome e m ws]
   \<and> (send_raises e ws \<longrightarrow>
        snd (send_personal_message e h m ws) = disconnect (h\<lparr>trace := trace h @ [Failed ws m]\<rparr>) ws)
   \<and> (\<not> send_raises e ws \<longrightarrow>
        snd (send_personal_message e h m ws) = h\<lparr>trace := trace h @ [Sent ws m]\<rparr>)"
  by (simp add: send_personal_message_def send_json_def outcome_def)

theorem send_personal_message_returns_normally_witness:
  "send_raises (dead 1) 1 \<and> \<not> send_raises (dead 1) 2
   \<and> send_personal_message (dead 1)
        \<lparr>active_connections = [1, 2], rooms = [(''general'', [1, 2])], tasks = [], trace = []\<rparr>
        (Application ''pong'') 1
      = (Inr (),
         \<lparr>active_connections = [2], rooms = [(''general'', [2])],
          tasks = [(''general'', UserLeft ''general'' 1)],
          trace = [Failed 1 (Application ''pong'')]\<rparr>)
   \<and> send_personal_message (dead 1)
        \<lparr>active_connections = [1, 2], rooms = [(''general'', [1, 2])], tasks = [], trace = []\<rparr>
        (Application ''pong'') 2
      = (Inr (),
         \<lparr>active_connections = [1, 2], rooms = [(''general'', [1, 2])], tasks = [],
          trace = [Sent 2 (Application ''pong'')]\<rparr>)"
  using send_personal_message_returns_normally
          [of "dead 1"
              "\<lparr>active_connections = [1, 2], rooms = [(''general'', [1, 2])], tasks = [], trace = []\<rparr>"
              "Application ''pong''" 1]
        send_personal_message_returns_normally
          [of "dead 1"
              "\<lparr>active_connections = [1, 2], rooms = [(''general'', [1, 2])], tasks = [], trace = []\<rparr>"
              "Application ''pong''" 2]
  by (simp add: dead_def disconnect_def remove_from_rooms_def left_tasks_def prod_eq_iff)

text \<open>
  C1, as the specification has it, fails: the send to the tracked handle 1 raises, and the
  caller is handed the normal return, not \<open>SendError\<close>.
\<close>

theorem send_personal_message_counterexample:
  "1 \<in> set (active_connections
              \<lparr>active_connections = [1, 2], rooms = [(''general'', [1, 2])], tasks = [], trace = []\<rparr>)
   \<and> send_raises (dead 1) 1
   \<and> fst (send_personal_message (dead 1)
        \<lparr>active_connections = [1, 2], rooms = [(''general'', [1, 2])], tasks = [], trace = []\<rparr>
        (Application ''pong'') 1) \<noteq> Inl SendError
   \<and> fst (send_personal_message (dead 1)
        \<lparr>active_connections = [1, 2], rooms = [(''general'', [1, 2])], tasks = [], trace = []\<rparr>
        (Application ''pong'') 1) = Inr ()"
  by (simp add: dead_def send_personal_message_def send_json_def)

subsection \<open>connect\<close>

lemma count_list_remove1_other:
  "d \<noteq> w \<Longrightarrow> count_list (remove1 d xs) w = count_list xs w"
  by (induction xs) auto

lemma foldl_disconnect_count_active:
  "w \<notin> set ds \<Longrightarrow>
   count_list (active_connections (foldl disconnect h ds)) w = count_list (active_connections h) w"
  by (induction ds arbitrary: h) (auto simp: count_list_remove1_other)

lemma foldl_disconnect_count_room:
  "w \<notin> set ds \<Longrightarrow>
   count_list (room_members (foldl disconnect h ds) room) w = count_list (room_members h room) w"
  by (induction ds arbitrary: h) (auto simp: count_list_remove1_other)

lemma connect_eq:
  "connect e h ws room =
     (if accept_raises e ws then Inl AcceptError
      else Inr (broadcast_to_room e (joined h ws room) room
                  (UserJoined room (length (room_members (joined h ws room) room))) (Some ws)))"
  by (simp add: connect_def joined_def Let_def)

lemma joined_active [simp]:
  "active_connections (joined h ws room) = active_connections h @ [ws]"
  by (simp add: joined_def Let_def split: option.splits)

lemma joined_trace [simp]: "trace (joined h ws room) = trace h"
  by (simp add: joined_def Let_def split: option.splits)

lemma joined_room_members:
  "room_members (joined h ws room) r =
     (if r = room then room_members h room @ [ws] else room_members h r)"
  by (auto simp: joined_def Let_def room_members_def update_conv' map_add_def split: option.splits)

lemma joined_names:
  "set (map fst (rooms (joined h ws room))) = insert room (set (map fst (rooms h)))"
proof (cases "map_of (rooms h) room")
  case None
  then show ?thesis by (simp add: joined_def Let_def)
next
  case (Some connections)
  then have "room \<in> fst ` set (rooms h)"
    by (metis map_of_eq_None_iff option.distinct(1))
  with Some show ?thesis
    by (auto simp: joined_def Let_def dom_update)
qed

text \<open>
  C5, as the code has it. \<^verbatim>\<open>connect\<close> does not look whether the handle is already there: when
  \<^verbatim>\<open>accept()\<close> returns, one call adds exactly one occurrence of the handle to the registry and
  exactly one to the list of the room, whatever they held before, and leaves its number of
  occurrences in every other room as it was. Nothing but \<^verbatim>\<open>accept()\<close> can make the call
  raise.
\<close>

theorem connect_appends:
  "(accept_raises e ws \<longrightarrow> connect e h ws room = Inl AcceptError)
   \<and> (\<not> accept_raises e ws \<longrightarrow>
        (\<exists>h'. connect e h ws room = Inr h'
          \<and> count_list (active_connections h') ws = Suc (count_list (active_connections h) ws)
          \<and> count_list (room_members h' room) ws = Suc (count_list (room_members h room) ws)
          \<and> (\<forall>r. r \<noteq> room \<longrightarrow>
                count_list (room_members h' r) ws = count_list (room_members h r) ws)))"
proof -
  let ?ds = "filter (send_raises e) (targeted (Some ws) (room_members (joined h ws room) room))"
  have "ws \<notin> set ?ds"
    by (simp add: targeted_def)
  then show ?thesis
    by (simp add: connect_eq broadcast_to_room_eq foldl_disconnect_count_active
        foldl_disconnect_count_room joined_room_members)
qed

theorem connect_appends_witness:
  "\<not> accept_raises all_well 1 \<and> accept_raises \<lparr>accept_raises = (\<lambda>c. c = 1), send_raises = (\<lambda>_. False)\<rparr> 1
   \<and> connect all_well
        \<lparr>active_connections = [1], rooms = [(''general'', [1])], tasks = [], trace = []\<rparr>
        1 ''general''
      = Inr \<lparr>active_connections = [1, 1], rooms = [(''general'', [1, 1])], tasks = [], trace = []\<rparr>
   \<and> connect \<lparr>accept_raises = (\<lambda>c. c = 1), send_raises = (\<lambda>_. False)\<rparr>
        \<lparr>active_connections = [1], rooms = [(''general'', [1])], tasks = [], trace = []\<rparr>
        1 ''general''
      = Inl AcceptError"
  using connect_appends
          [of all_well 1
              "\<lparr>active_connections = [1], rooms = [(''general'', [1])], tasks = [], trace = []\<rparr>"
              "''general''"]
        connect_appends
          [of "\<lparr>accept_raises = (\<lambda>c. c = 1), send_raises = (\<lambda>_. False)\<rparr>" 1
              "\<lparr>active_connections = [1], rooms = [(''general'', [1])], tasks = [], trace = []\<rparr>"
              "''general''"]
  by (simp add: all_well_def connect_def broadcast_to_room_def room_members_def)

text \<open>
  C5, as the specification has it, fails: after two calls of \<^verbatim>\<open>connect\<close> for handle 1 and room
  \<^verbatim>\<open>general\<close> the handle is twice in the registry and twice in the room.
\<close>

theorem connect_idempotent_counterexample:
  "run init [(all_well, Connect 1 ''general''), (all_well, Connect 1 ''general'')]
     = \<lparr>active_connections = [1, 1], rooms = [(''general'', [1, 1])], tasks = [], trace = []\<rparr>
   \<and> run init [(all_well, Connect 1 ''general'')]
     \<noteq> run init [(all_well, Connect 1 ''general''), (all_well, Connect 1 ''general'')]
   \<and> count_list (active_connections
        (run init [(all_well, Connect 1 ''general''), (all_well, Connect 1 ''general'')])) 1 = 2"
  by (simp add: init_def all_well_def connect_def broadcast_to_room_def room_members_def)

subsection \<open>disconnect\<close>

text \<open>
  C6 at managers that two calls of \<^verbatim>\<open>connect\<close> for the same handle have built. Joined twice
  to one room, the handle loses one occurrence in the registry and one in the room by a call of
  \<^verbatim>\<open>disconnect\<close>, and is still in both. Joined to two rooms, it leaves both rooms and stays
  in the registry.
\<close>

theorem disconnect_leaves_repeated_handle:
  "run init [(all_well, Connect 1 ''general''), (all_well, Connect 1 ''general'')]
     = \<lparr>active_connections = [1, 1], rooms = [(''general'', [1, 1])], tasks = [], trace = []\<rparr>
   \<and> disconnect
        \<lparr>active_connections = [1, 1], rooms = [(''general'', [1, 1])], tasks = [], trace = []\<rparr> 1
     = \<lparr>active_connections = [1], rooms = [(''general'', [1])],
        tasks = [(''general'', UserLeft ''general'' 1)], trace = []\<rparr>
   \<and> 1 \<in> set (active_connections (disconnect
        \<lparr>active_connections = [1, 1], rooms = [(''general'', [1, 1])], tasks = [], trace = []\<rparr> 1))
   \<and> 1 \<in> set (room_members (disconnect
        \<lparr>active_connections = [1, 1], rooms = [(''general'', [1, 1])], tasks = [], trace = []\<rparr> 1)
        ''general'')
   \<and> run init [(all_well, Connect 1 ''a''), (all_well, Connect 1 ''b'')]
     = \<lparr>active_connections = [1, 1], rooms = [(''a'', [1]), (''b'', [1])], tasks = [], trace = []\<rparr>
   \<and> disconnect
        \<lparr>active_connections = [1, 1], rooms = [(''a'', [1]), (''b'', [1])], tasks = [], trace = []\<rparr> 1
     = \<lparr>active_connections = [1], rooms = [(''a'', []), (''b'', [])],
        tasks = [(''a'', UserLeft ''a'' 0), (''b'', UserLeft ''b'' 0)], trace = []\<rparr>"
  by (simp add: init_def all_well_def connect_def broadcast_to_room_def room_members_def
      disconnect_def remove_from_rooms_def left_tasks_def)










subsection \<open>get_room_info\<close>

text \<open>
  C8. \<^verbatim>\<open>get_room_info\<close> assigns nothing; for a room that no handle is a member of it reports
  0 connections; and it reports the room active exactly when the room is a key of \<^verbatim>\<open>rooms\<close>.
\<close>

theorem get_room_info_reads:
  "step e h (GetRoomInfo room) = h
   \<and> info_room (get_room_info h room) = room
   \<and> ((\<forall>ws. ws \<notin> set (room_members h room)) \<longrightarrow> info_connections (get_room_info h room) = 0)
   \<and> info_active (get_room_info h room) = (room \<in> fst ` set (rooms h))"
  by (simp add: get_room_info_def map_of_eq_None_iff)

theorem get_room_info_reads_witness:
  "(\<forall>ws. ws \<notin> set (room_members
       \<lparr>active_connections = [2], rooms = [(''general'', [2]), (''dev'', [])], tasks = [], trace = []\<rparr>
       ''dev''))
   \<and> get_room_info
       \<lparr>active_connections = [2], rooms = [(''general'', [2]), (''dev'', [])], tasks = [], trace = []\<rparr>
       ''dev''
     = \<lparr>info_room = ''dev'', info_connections = 0, info_active = True\<rparr>
   \<and> get_room_info
       \<lparr>active_connections = [2], rooms = [(''general'', [2]), (''dev'', [])], tasks = [], trace = []\<rparr>
       ''ops''
     = \<lparr>info_room = ''ops'', info_connections = 0, info_active = False\<rparr>"
  using get_room_info_reads
          [of all_well
              "\<lparr>active_connections = [2], rooms = [(''general'', [2]), (''dev'', [])], tasks = [], trace = []\<rparr>"
              "''dev''"]
        get_room_info_reads
          [of all_well
              "\<lparr>active_connections = [2], rooms = [(''general'', [2]), (''dev'', [])], tasks = [], trace = []\<rparr>"
              "''ops''"]
  by (simp add: get_room_info_def room_members_def)

subsection \<open>Broadcasts in which no send raises\<close>

text \<open>
  C10. When no send to a targeted member of the room raises, \<^verbatim>\<open>broadcast_to_room\<close> leaves the
  registry, the rooms and the created tasks as they were; when no send to a handle of the
  registry raises, so does \<^verbatim>\<open>broadcast_to_all\<close>.
\<close>

theorem broadcast_without_failure:
  "((\<forall>c \<in> set (targeted exclude (room_members h room)). \<not> send_raises e c) \<longrightarrow>
      active_connections (broadcast_to_room e h room m exclude) = active_connections h
      \<and> rooms (broadcast_to_room e h room m exclude) = rooms h
      \<and> tasks (broadcast_to_room e h room m exclude) = tasks h)
   \<and> ((\<forall>c \<in> set (active_connections h). \<not> send_raises e c) \<longrightarrow>
      active_connections (broadcast_to_all e h m) = active_connections h
      \<and> rooms (broadcast_to_all e h m) = rooms h
      \<and> tasks (broadcast_to_all e h m) = tasks h)"
proof -
  have "filter (send_raises e) cs = []" if "\<forall>c \<in> set cs. \<not> send_raises e c" for cs
    using that by (simp add: filter_empty_conv)
  then show ?thesis
    by (simp add: broadcast_to_room_eq broadcast_to_all_eq)
qed

theorem broadcast_without_failure_witness:
  "targeted (Some 3) (room_members
        \<lparr>active_connections = [1, 2, 3], rooms = [(''general'', [1, 3]), (''dev'', [2])], tasks = [], trace = []\<rparr>
        ''general'') = [1]
   \<and> \<not> send_raises (dead 3) 1
   \<and> broadcast_to_room (dead 3)
        \<lparr>active_connections = [1, 2, 3], rooms = [(''general'', [1, 3]), (''dev'', [2])], tasks = [], trace = []\<rparr>
        ''general'' (Application ''hello'') (Some 3)
     = \<lparr>active_connections = [1, 2, 3], rooms = [(''general'', [1, 3]), (''dev'', [2])], tasks = [],
        trace = [Sent 1 (Application ''hello'')]\<rparr>
   \<and> \<not> send_raises all_well 1 \<and> \<not> send_raises all_well 2 \<and> \<not> send_raises all_well 3
   \<and> broadcast_to_all all_well
        \<lparr>active_connections = [1, 2, 3], rooms = [(''general'', [1, 3]), (''dev'', [2])], tasks = [], trace = []\<rparr>
        (Application ''hello'')
     = \<lparr>active_connections = [1, 2, 3], rooms = [(''general'', [1, 3]), (''dev'', [2])], tasks = [],
        trace = [Sent 1 (Application ''hello''), Sent 2 (Application ''hello''),
                 Sent 3 (Application ''hello'')]\<rparr>"
  using broadcast_without_failure
          [of "Some 3"
              "\<lparr>active_connections = [1, 2, 3], rooms = [(''general'', [1, 3]), (''dev'', [2])], tasks = [], trace = []\<rparr>"
              "''general''" "dead 3" "Application ''hello''"]
        broadcast_without_failure
          [of None
              "\<lparr>active_connections = [1, 2, 3], rooms = [(''general'', [1, 3]), (''dev'', [2])], tasks = [], trace = []\<rparr>"
              "''general''" all_well "Application ''hello''"]
  by (simp add: dead_def all_well_def targeted_def room_members_def broadcast_to_room_def
      broadcast_to_all_def send_json_def)

subsection \<open>The registry and the rooms\<close>

lemma linked_trace [simp]: "linked (h\<lparr>trace := t\<rparr>) = linked h"
  by (simp add: linked_def)

lemma linked_tasks [simp]: "linked (h\<lparr>tasks := t\<rparr>) = linked h"
  by (simp add: linked_def)















lemma covered_trace [simp]: "covered (h\<lparr>trace := t\<rparr>) = covered h"
  by (simp add: covered_def)

lemma covered_tasks [simp]: "covered (h\<lparr>tasks := t\<rparr>) = covered h"
  by (simp add: covered_def)


















subsection \<open>Rooms are kept\<close>

lemma broadcast_to_room_names [simp]:
  "map fst (rooms (broadcast_to_room e h room m ex)) = map fst (rooms h)"
  by (simp add: broadcast_to_room_eq)

lemma broadcast_to_all_names [simp]:
  "map fst (rooms (broadcast_to_all e h m)) = map fst (rooms h)"
  by (simp add: broadcast_to_all_eq)

lemma same_names: "map fst ys = map fst xs \<Longrightarrow> fst ` set xs \<subseteq> fst ` set ys"
  by (metis set_map subset_refl)

lemma joined_keys: "fst ` set (rooms (joined h ws room)) = insert room (fst ` set (rooms h))"
  using joined_names [of h ws room] by simp

lemma connect_keys:
  "connect e h ws room = Inr h1 \<Longrightarrow> fst ` set (rooms h1) = insert room (fst ` set (rooms h))"
proof -
  assume "connect e h ws room = Inr h1"
  then have "map fst (rooms h1) = map fst (rooms (joined h ws room))"
    by (auto simp: connect_eq split: if_splits)
  then have "fst ` set (rooms h1) = fst ` set (rooms (joined h ws room))"
    by (metis set_map)
  then show ?thesis
    by (simp add: joined_keys)
qed

lemma step_names: "fst ` set (rooms h) \<subseteq> fst ` set (rooms (step e h c))"
proof (cases c)
  case (Connect ws room)
  show ?thesis
  proof (cases "connect e h ws room")
    case (Inl err)
    with Connect show ?thesis by simp
  next
    case (Inr h1)
    from connect_keys [OF Inr] Connect Inr show ?thesis by auto
  qed
next
  case (Disconnect ws)
  then have "map fst (rooms (step e h c)) = map fst (rooms h)" by simp
  then show ?thesis by (rule same_names)
next
  case (SendPersonal m ws)
  then have "map fst (rooms (step e h c)) = map fst (rooms h)"
    by (simp add: send_personal_message_def send_json_def)
  then show ?thesis by (rule same_names)
next
  case (BroadcastRoom room m ex)
  then have "map fst (rooms (step e h c)) = map fst (rooms h)" by simp
  then show ?thesis by (rule same_names)
next
  case (BroadcastAll m)
  then have "map fst (rooms (step e h c)) = map fst (rooms h)" by simp
  then show ?thesis by (rule same_names)
next
  case RunTask
  then have "map fst (rooms (step e h c)) = map fst (rooms h)"
    by (simp add: run_task_def split: list.splits)
  then show ?thesis by (rule same_names)
next
  case (GetRoomInfo room)
  then show ?thesis by simp
next
  case GetStats
  then show ?thesis by simp
qed

lemma run_names: "fst ` set (rooms h) \<subseteq> fst ` set (rooms (run h calls))"
proof (induction calls arbitrary: h)
  case Nil
  show ?case by simp
next
  case (Cons call calls)
  obtain e c where call: "call = (e, c)"
    by (cases call)
  from step_names [of h e c] Cons.IH [of "step e h c"] show ?case
    unfolding call by auto
qed

lemma map_of_stats_rooms:
  "map_of (stats_rooms (get_stats h)) room = map_option length (map_of (rooms h) room)"
proof -
  have "map_of (map (\<lambda>(room, connections). (room, length connections)) items) room
      = map_option length (map_of items room)" for items :: "(string \<times> websocket list) list"
    by (induction items) auto
  then show ?thesis
    by (simp add: get_stats_def)
qed

text \<open>
  C9. No call removes a key from \<^verbatim>\<open>rooms\<close>. A room that a \<^verbatim>\<open>connect\<close> has created is a key after
  every later sequence of calls: \<^verbatim>\<open>get_room_info\<close> reports it active, with 0 connections when
  its list has become empty, and the rooms of \<^verbatim>\<open>get_stats\<close> list it with the length of its
  list, which is 0 when it is empty.
\<close>

theorem rooms_are_kept:
  "connect e h ws room = Inr h1 \<Longrightarrow> h2 = run h1 calls \<Longrightarrow>
     room \<in> fst ` set (rooms h2)
     \<and> fst ` set (rooms h1) \<subseteq> fst ` set (rooms h2)
     \<and> info_active (get_room_info h2 room)
     \<and> map fst (stats_rooms (get_stats h2)) = map fst (rooms h2)
     \<and> map_of (stats_rooms (get_stats h2)) room = Some (length (room_members h2 room))
     \<and> (room_members h2 room = [] \<longrightarrow>
          get_room_info h2 room = \<lparr>info_room = room, info_connections = 0, info_active = True\<rparr>
          \<and> map_of (stats_rooms (get_stats h2)) room = Some 0)"
proof -
  assume c: "connect e h ws room = Inr h1" and h2: "h2 = run h1 calls"
  have sub: "fst ` set (rooms h1) \<subseteq> fst ` set (rooms h2)"
    using run_names [of h1 calls] by (simp add: h2)
  from connect_keys [OF c] have "room \<in> fst ` set (rooms h1)"
    by simp
  with sub have key: "room \<in> fst ` set (rooms h2)"
    by blast
  then obtain cs where cs: "map_of (rooms h2) room = Some cs"
    by (metis map_of_eq_None_iff not_Some_eq)
  have act: "info_active (get_room_info h2 room)"
    by (simp add: get_room_info_def cs)
  have names: "map fst (stats_rooms (get_stats h2)) = map fst (rooms h2)"
    by (simp add: get_stats_def split_def)
  have st: "map_of (stats_rooms (get_stats h2)) room = Some (length (room_members h2 room))"
    by (simp add: map_of_stats_rooms room_members_def cs)
  have empty: "get_room_info h2 room = \<lparr>info_room = room, info_connections = 0, info_active = True\<rparr>
      \<and> map_of (stats_rooms (get_stats h2)) room = Some 0"
    if "room_members h2 room = []"
    using that st by (simp add: get_room_info_def cs)
  from key sub act names st empty show ?thesis by blast
qed

theorem rooms_are_kept_witness:
  "connect all_well init 1 ''general''
     = Inr \<lparr>active_connections = [1], rooms = [(''general'', [1])], tasks = [], trace = []\<rparr>
   \<and> run \<lparr>active_connections = [1], rooms = [(''general'', [1])], tasks = [], trace = []\<rparr>
        [(all_well, Disconnect 1), (all_well, RunTask), (all_well, Connect 2 ''dev'')]
     = \<lparr>active_connections = [2], rooms = [(''general'', []), (''dev'', [2])], tasks = [], trace = []\<rparr>
   \<and> room_members
        \<lparr>active_connections = [2], rooms = [(''general'', []), (''dev'', [2])], tasks = [], trace = []\<rparr>
        ''general'' = []
   \<and> get_room_info
        \<lparr>active_connections = [2], rooms = [(''general'', []), (''dev'', [2])], tasks = [], trace = []\<rparr>
        ''general''
     = \<lparr>info_room = ''general'', info_connections = 0, info_active = True\<rparr>
   \<and> get_stats
        \<lparr>active_connections = [2], rooms = [(''general'', []), (''dev'', [2])], tasks = [], trace = []\<rparr>
     = \<lparr>total_connections = 1, stats_rooms = [(''general'', 0), (''dev'', 1)]\<rparr>"
proof -
  let ?h1 = "\<lparr>active_connections = [1], rooms = [(''general'', [1])], tasks = [], trace = []\<rparr>"
  let ?h2 = "\<lparr>active_connections = [2], rooms = [(''general'', []), (''dev'', [2])], tasks = [], trace = []\<rparr>"
  let ?calls = "[(all_well, Disconnect 1), (all_well, RunTask), (all_well, Connect 2 ''dev'')]"
  have c: "connect all_well init 1 ''general'' = Inr ?h1"
    by code_simp
  have r: "run ?h1 ?calls = ?h2"
    by code_simp
  have e: "room_members ?h2 ''general'' = []"
    by (simp add: room_members_def)
  have s: "get_stats ?h2 = \<lparr>total_connections = 1, stats_rooms = [(''general'', 0), (''dev'', 1)]\<rparr>"
    by (simp add: get_stats_def)
  from rooms_are_kept [OF c r [symmetric]] e have
    "get_room_info ?h2 ''general'' = \<lparr>info_room = ''general'', info_connections = 0, info_active = True\<rparr>"
    by blast
  with c r e s show ?thesis
    by blast
qed

subsection \<open>The broadcast among other tasks\<close>

declare send_loop_live.simps [simp del]

lemma cleanup_eq: "cleanup h ds = (foldl disconnect h ds, ds)"
  by (induction ds arbitrary: h) simp_all

lemma send_json_snd:
  "snd (send_json e c m h) = h\<lparr>trace := trace h @ [outcome e m c]\<rparr>"
  by (simp add: send_json_def outcome_def)

text \<open>When no other task runs, the loop over the live list is the loop over the list.\<close>

lemma send_loop_live_alone:
  "send_loop_live e m ex room [] i (h, d) =
     (h\<lparr>trace := trace h @ map (outcome e m) (targeted ex (drop i (room_members h room)))\<rparr>,
      d @ filter (send_raises e) (targeted ex (drop i (room_members h room))))"
proof (induction n \<equiv> "length (room_members h room) - i" arbitrary: i h d)
  case 0
  then have "drop i (room_members h room) = []"
    by simp
  moreover from 0 have "\<not> i < length (room_members h room)"
    by simp
  ultimately show ?case
    by (simp add: send_loop_live.simps [of e m ex room "[]" i h d] targeted_def)
next
  case (Suc n)
  let ?c = "room_members h room ! i"
  from Suc.hyps(2) have less: "i < length (room_members h room)"
    by simp
  then have dr: "drop i (room_members h room) = ?c # drop (Suc i) (room_members h room)"
    by (simp add: Cons_nth_drop_Suc)
  from Suc.hyps(2) have n: "n = length (room_members h room) - Suc i"
    by simp
  show ?case
  proof (cases "Some ?c = ex")
    case True
    have "send_loop_live e m ex room [] i (h, d) = send_loop_live e m ex room [] (Suc i) (h, d)"
      using less True by (simp add: send_loop_live.simps [of e m ex room "[]" i h d])
    also have "\<dots> =
      (h\<lparr>trace := trace h @ map (outcome e m) (targeted ex (drop (Suc i) (room_members h room)))\<rparr>,
       d @ filter (send_raises e) (targeted ex (drop (Suc i) (room_members h room))))"
      by (rule Suc.hyps(1) [OF n])
    finally show ?thesis
      using True by (simp add: dr targeted_def)
  next
    case False
    let ?h1 = "h\<lparr>trace := trace h @ [outcome e m ?c]\<rparr>"
    let ?d1 = "if send_raises e ?c then d @ [?c] else d"
    have m1: "room_members ?h1 room = room_members h room"
      by simp
    have n1: "n = length (room_members ?h1 room) - Suc i"
      using n by simp
    have "send_loop_live e m ex room [] i (h, d) = send_loop_live e m ex room [] (Suc i) (?h1, ?d1)"
      using less False
      by (simp add: send_loop_live.simps [of e m ex room "[]" i h d] send_json_snd during_await_def)
    also have "\<dots> =
      (?h1\<lparr>trace := trace ?h1 @ map (outcome e m) (targeted ex (drop (Suc i) (room_members ?h1 room)))\<rparr>,
       ?d1 @ filter (send_raises e) (targeted ex (drop (Suc i) (room_members ?h1 room))))"
      by (rule Suc.hyps(1) [OF n1])
    finally show ?thesis
      using False by (simp add: dr targeted_def)
  qed
qed

lemma broadcast_to_room_live_alone:
  "broadcast_to_room_live e h room m ex [] =
     (broadcast_to_room e h room m ex,
      filter (send_raises e) (targeted ex (room_members h room)))"
proof (cases "map_of (rooms h) room")
  case None
  then show ?thesis
    by (simp add: broadcast_to_room_live_def broadcast_to_room_def room_members_def targeted_def)
next
  case (Some connections)
  then show ?thesis
    by (simp add: broadcast_to_room_live_def send_loop_live_alone cleanup_eq broadcast_to_room_eq)
qed

lemma count_list_remove1:
  "count_list (remove1 d xs) c = count_list xs c - (if c = d then 1 else 0)"
  by (induction xs) auto

lemma foldl_disconnect_count_registry:
  "count_list (active_connections (foldl disconnect h ds)) c
     = count_list (active_connections h) c - count_list ds c"
  by (induction ds arbitrary: h) (simp_all add: count_list_remove1)

lemma foldl_disconnect_count_members:
  "count_list (room_members (foldl disconnect h ds) room) c
     = count_list (room_members h room) c - count_list ds c"
  by (induction ds arbitrary: h) (simp_all add: count_list_remove1)

lemma count_list_filter_le: "count_list (filter P xs) c \<le> count_list xs c"
  by (induction xs) auto

lemma count_list_positive: "c \<in> set xs \<Longrightarrow> 0 < count_list xs c"
  using count_list_0_iff [of xs c] by simp

lemma distinct_by_count: "(\<forall>c \<in> set xs. count_list xs c \<le> 1) \<Longrightarrow> distinct xs"
proof (induction xs)
  case Nil
  show ?case by simp
next
  case (Cons x xs)
  from Cons.prems have "count_list xs x = 0"
    by simp
  then have x: "x \<notin> set xs"
    by (simp add: count_list_0_iff)
  have "\<forall>c \<in> set xs. count_list xs c \<le> 1"
  proof
    fix c assume c: "c \<in> set xs"
    with Cons.prems have "count_list (x # xs) c \<le> 1" by simp
    moreover from c x have "c \<noteq> x" by auto
    ultimately show "count_list xs c \<le> 1" by simp
  qed
  with Cons.IH x show ?case by simp
qed

text \<open>
  C3, as the code has it. Let \<open>ts\<close> be the targeted entries of the room's list (\<open>n\<close> of them) and
  \<open>failed\<close> those whose send raises (\<open>k\<close> of them), and let no other task run during the
  sends. Then one \<^verbatim>\<open>broadcast_to_room\<close> delivers the message to the other \<open>n - k\<close> targeted
  entries; it calls \<^verbatim>\<open>disconnect\<close> once for each entry of \<open>failed\<close>, in their order, which is
  exactly once per failed handle when the room lists none of them twice; every list, the
  registry or a room, loses as many occurrences of a handle as \<open>failed\<close> has of it, as far
  as it holds them, and nothing else: a failed handle is gone from each list that held it at
  most once, and no other handle is removed.
\<close>

theorem broadcast_to_room_cleanup:
  "ts = targeted exclude (room_members h room) \<Longrightarrow>
   failed = filter (send_raises e) ts \<Longrightarrow>
   (h', calls) = broadcast_to_room_live e h room m exclude [] \<Longrightarrow>
     calls = failed
     \<and> ((\<forall>c \<in> set failed. count_list (room_members h room) c \<le> 1) \<longrightarrow> distinct calls)
     \<and> (\<forall>c. count_list (active_connections h') c
              = count_list (active_connections h) c - count_list failed c)
     \<and> (\<forall>r c. count_list (room_members h' r) c
              = count_list (room_members h r) c - count_list failed c)
     \<and> (\<forall>c \<in> set failed.
           (count_list (active_connections h) c \<le> 1 \<longrightarrow> c \<notin> set (active_connections h'))
           \<and> (\<forall>r. count_list (room_members h r) c \<le> 1 \<longrightarrow> c \<notin> set (room_members h' r)))
     \<and> delivered_to m (events_since h h') = filter (\<lambda>c. \<not> send_raises e c) ts
     \<and> length (delivered_to m (events_since h h')) = length ts - length failed"
proof -
  assume ts: "ts = targeted exclude (room_members h room)"
    and failed: "failed = filter (send_raises e) ts"
    and run: "(h', calls) = broadcast_to_room_live e h room m exclude []"
  from run have h': "h' = broadcast_to_room e h room m exclude" and calls: "calls = failed"
    by (simp_all add: broadcast_to_room_live_alone failed ts)
  have eq: "h' = foldl disconnect (h\<lparr>trace := trace h @ map (outcome e m) ts\<rparr>) failed"
    by (simp add: h' failed ts broadcast_to_room_eq)
  have once: "distinct calls" if single: "\<forall>c \<in> set failed. count_list (room_members h room) c \<le> 1"
  proof -
    have "count_list failed c \<le> 1" if "c \<in> set failed" for c
    proof -
      have "count_list failed c \<le> count_list ts c"
        unfolding failed by (rule count_list_filter_le)
      also have "\<dots> \<le> count_list (room_members h room) c"
        unfolding ts targeted_def by (rule count_list_filter_le)
      also from single that have "\<dots> \<le> 1"
        by blast
      finally show ?thesis .
    qed
    then have "distinct failed"
      by (blast intro: distinct_by_count)
    then show ?thesis
      by (simp add: calls)
  qed
  have reg: "count_list (active_connections h') c
      = count_list (active_connections h) c - count_list failed c" for c
    by (simp add: eq foldl_disconnect_count_registry)
  have mem: "count_list (room_members h' r) c
      = count_list (room_members h r) c - count_list failed c" for r c
    by (simp add: eq foldl_disconnect_count_members)
  have gone_reg: "c \<notin> set (active_connections h')"
    if "c \<in> set failed" "count_list (active_connections h) c \<le> 1" for c
  proof -
    from that(1) have "0 < count_list failed c"
      by (rule count_list_positive)
    with that(2) reg [of c] have "count_list (active_connections h') c = 0"
      by simp
    then show ?thesis
      by (simp add: count_list_0_iff)
  qed
  have gone_mem: "c \<notin> set (room_members h' r)"
    if "c \<in> set failed" "count_list (room_members h r) c \<le> 1" for c r
  proof -
    from that(1) have "0 < count_list failed c"
      by (rule count_list_positive)
    with that(2) mem [of r c] have "count_list (room_members h' r) c = 0"
      by simp
    then show ?thesis
      by (simp add: count_list_0_iff)
  qed
  have "trace h' = trace h @ map (outcome e m) ts"
    by (simp add: eq)
  then have ev: "events_since h h' = map (outcome e m) ts"
    by (rule events_since_append)
  have del: "delivered_to m (events_since h h') = filter (\<lambda>c. \<not> send_raises e c) ts"
    by (simp add: ev delivered_to_outcomes)
  have "length (filter (send_raises e) ts) + length (filter (\<lambda>c. \<not> send_raises e c) ts) = length ts"
    by (rule sum_length_filter_compl)
  then have len: "length (delivered_to m (events_since h h')) = length ts - length failed"
    by (simp add: del failed)
  from calls once reg mem gone_reg gone_mem del len show ?thesis
    by blast
qed

theorem broadcast_to_room_cleanup_witness:
  "targeted None (room_members
        \<lparr>active_connections = [1, 2, 3, 2], rooms = [(''general'', [1, 2, 3]), (''dev'', [2])], tasks = [], trace = []\<rparr>
        ''general'') = [1, 2, 3]
   \<and> filter (send_raises (dead 2)) [1, 2, 3] = [2]
   \<and> count_list (room_members
        \<lparr>active_connections = [1, 2, 3, 2], rooms = [(''general'', [1, 2, 3]), (''dev'', [2])], tasks = [], trace = []\<rparr>
        ''general'') 2 \<le> 1
   \<and> count_list (room_members
        \<lparr>active_connections = [1, 2, 3, 2], rooms = [(''general'', [1, 2, 3]), (''dev'', [2])], tasks = [], trace = []\<rparr>
        ''dev'') 2 \<le> 1
   \<and> broadcast_to_room_live (dead 2)
        \<lparr>active_connections = [1, 2, 3, 2], rooms = [(''general'', [1, 2, 3]), (''dev'', [2])], tasks = [], trace = []\<rparr>
        ''general'' (Application ''m2'') None []
     = (\<lparr>active_connections = [1, 3, 2], rooms = [(''general'', [1, 3]), (''dev'', [])],
         tasks = [(''general'', UserLeft ''general'' 2), (''dev'', UserLeft ''dev'' 0)],
         trace = [Sent 1 (Application ''m2''), Failed 2 (Application ''m2''), Sent 3 (Application ''m2'')]\<rparr>,
        [2])
   \<and> distinct [2::nat]
   \<and> 2 \<notin> set (room_members
        \<lparr>active_connections = [1, 3, 2], rooms = [(''general'', [1, 3]), (''dev'', [])],
         tasks = [(''general'', UserLeft ''general'' 2), (''dev'', UserLeft ''dev'' 0)],
         trace = [Sent 1 (Application ''m2''), Failed 2 (Application ''m2''), Sent 3 (Application ''m2'')]\<rparr>
        ''dev'')
   \<and> count_list (active_connections
        \<lparr>active_connections = [1, 2, 3, 4], rooms = [(''general'', [1, 2, 3]), (''dev'', [4])], tasks = [], trace = []\<rparr>)
        2 \<le> 1
   \<and> broadcast_to_room_live (dead 2)
        \<lparr>active_connections = [1, 2, 3, 4], rooms = [(''general'', [1, 2, 3]), (''dev'', [4])], tasks = [], trace = []\<rparr>
        ''general'' (Application ''m2'') None []
     = (\<lparr>active_connections = [1, 3, 4], rooms = [(''general'', [1, 3]), (''dev'', [4])],
         tasks = [(''general'', UserLeft ''general'' 2)],
         trace = [Sent 1 (Application ''m2''), Failed 2 (Application ''m2''), Sent 3 (Application ''m2'')]\<rparr>,
        [2])
   \<and> 2 \<notin> set (active_connections
        \<lparr>active_connections = [1, 3, 4], rooms = [(''general'', [1, 3]), (''dev'', [4])],
         tasks = [(''general'', UserLeft ''general'' 2)],
         trace = [Sent 1 (Application ''m2''), Failed 2 (Application ''m2''), Sent 3 (Application ''m2'')]\<rparr>)"
proof -
  let ?hA = "\<lparr>active_connections = [1, 2, 3, 2], rooms = [(''general'', [1, 2, 3]), (''dev'', [2])],
              tasks = [], trace = []\<rparr>"
  let ?hA' = "\<lparr>active_connections = [1, 3, 2], rooms = [(''general'', [1, 3]), (''dev'', [])],
         tasks = [(''general'', UserLeft ''general'' 2), (''dev'', UserLeft ''dev'' 0)],
         trace = [Sent 1 (Application ''m2''), Failed 2 (Application ''m2''), Sent 3 (Application ''m2'')]\<rparr>"
  let ?hB = "\<lparr>active_connections = [1, 2, 3, 4], rooms = [(''general'', [1, 2, 3]), (''dev'', [4])],
              tasks = [], trace = []\<rparr>"
  let ?hB' = "\<lparr>active_connections = [1, 3, 4], rooms = [(''general'', [1, 3]), (''dev'', [4])],
         tasks = [(''general'', UserLeft ''general'' 2)],
         trace = [Sent 1 (Application ''m2''), Failed 2 (Application ''m2''), Sent 3 (Application ''m2'')]\<rparr>"
  have tsA: "targeted None (room_members ?hA ''general'') = [1, 2, 3]"
    by (simp add: targeted_def room_members_def)
  have tsB: "targeted None (room_members ?hB ''general'') = [1, 2, 3]"
    by (simp add: targeted_def room_members_def)
  have failed: "filter (send_raises (dead 2)) [1, 2, 3] = [2]"
    by (simp add: dead_def)
  have cA: "count_list (room_members ?hA ''general'') 2 \<le> 1"
    "count_list (room_members ?hA ''dev'') 2 \<le> 1"
    by (simp_all add: room_members_def)
  have cB: "count_list (active_connections ?hB) 2 \<le> 1"
    by simp
  have rA: "broadcast_to_room_live (dead 2) ?hA ''general'' (Application ''m2'') None [] = (?hA', [2])"
    by code_simp
  have rB: "broadcast_to_room_live (dead 2) ?hB ''general'' (Application ''m2'') None [] = (?hB', [2])"
    by code_simp
  note tA = broadcast_to_room_cleanup [OF tsA [symmetric] failed [symmetric] rA [symmetric]]
  note tB = broadcast_to_room_cleanup [OF tsB [symmetric] failed [symmetric] rB [symmetric]]
  have in_failed: "(2::nat) \<in> set [2]"
    by simp
  from tA have "(\<forall>c \<in> set [2]. count_list (room_members ?hA ''general'') c \<le> 1) \<longrightarrow> distinct [2::nat]"
    by (elim conjE) assumption
  with cA(1) have A1: "distinct [2::nat]"
    by simp
  from tA have "\<forall>c \<in> set [2].
      (count_list (active_connections ?hA) c \<le> 1 \<longrightarrow> c \<notin> set (active_connections ?hA'))
      \<and> (\<forall>r. count_list (room_members ?hA r) c \<le> 1 \<longrightarrow> c \<notin> set (room_members ?hA' r))"
    by (elim conjE) assumption
  with in_failed cA(2) have A2: "2 \<notin> set (room_members ?hA' ''dev'')"
    by blast
  from tB have "\<forall>c \<in> set [2].
      (count_list (active_connections ?hB) c \<le> 1 \<longrightarrow> c \<notin> set (active_connections ?hB'))
      \<and> (\<forall>r. count_list (room_members ?hB r) c \<le> 1 \<longrightarrow> c \<notin> set (room_members ?hB' r))"
    by (elim conjE) assumption
  with in_failed cB have B: "2 \<notin> set (active_connections ?hB')"
    by blast
  note A = A1 A2
  from tsA failed cA rA A cB rB B show ?thesis
    by blast
qed

text \<open>
  C3, as the specification has it, fails three times. Handle 1, joined to two rooms, is still
  in the registry after a broadcast to one of them in which its send raised. In a room that
  lists handle 1 twice, \<^verbatim>\<open>disconnect\<close> is called on it twice. And when the task of handle 1
  disconnects it while the send to it is awaited, the loop passes over handle 2, which is
  targeted and whose send would not raise.
\<close>

theorem broadcast_to_room_cleanup_counterexample:
  "run init [(all_well, Connect 1 ''a''), (all_well, Connect 1 ''b'')]
     = \<lparr>active_connections = [1, 1], rooms = [(''a'', [1]), (''b'', [1])], tasks = [], trace = []\<rparr>
   \<and> send_raises (dead 1) 1
   \<and> 1 \<in> set (active_connections (fst (broadcast_to_room_live (dead 1)
        \<lparr>active_connections = [1, 1], rooms = [(''a'', [1]), (''b'', [1])], tasks = [], trace = []\<rparr>
        ''a'' (Application ''m'') None [])))
   \<and> run init [(all_well, Connect 1 ''general''), (all_well, Connect 1 ''general'')]
     = \<lparr>active_connections = [1, 1], rooms = [(''general'', [1, 1])], tasks = [], trace = []\<rparr>
   \<and> snd (broadcast_to_room_live (dead 1)
        \<lparr>active_connections = [1, 1], rooms = [(''general'', [1, 1])], tasks = [], trace = []\<rparr>
        ''general'' (Application ''m'') None [])
     = [1, 1]
   \<and> targeted None (room_members
        \<lparr>active_connections = [1, 2, 3], rooms = [(''general'', [1, 2, 3])], tasks = [], trace = []\<rparr>
        ''general'') = [1, 2, 3]
   \<and> \<not> send_raises (dead 1) 2
   \<and> delivered_to (Application ''m'') (trace (fst (broadcast_to_room_live (dead 1)
        \<lparr>active_connections = [1, 2, 3], rooms = [(''general'', [1, 2, 3])], tasks = [], trace = []\<rparr>
        ''general'' (Application ''m'') None [[(dead 1, Disconnect 1)]])))
     = [3]"
proof -
  have 1: "run init [(all_well, Connect 1 ''a''), (all_well, Connect 1 ''b'')]
     = \<lparr>active_connections = [1, 1], rooms = [(''a'', [1]), (''b'', [1])], tasks = [], trace = []\<rparr>"
    by code_simp
  have 2: "active_connections (fst (broadcast_to_room_live (dead 1)
        \<lparr>active_connections = [1, 1], rooms = [(''a'', [1]), (''b'', [1])], tasks = [], trace = []\<rparr>
        ''a'' (Application ''m'') None [])) = [1]"
    by code_simp
  have 3: "run init [(all_well, Connect 1 ''general''), (all_well, Connect 1 ''general'')]
     = \<lparr>active_connections = [1, 1], rooms = [(''general'', [1, 1])], tasks = [], trace = []\<rparr>"
    by code_simp
  have 4: "snd (broadcast_to_room_live (dead 1)
        \<lparr>active_connections = [1, 1], rooms = [(''general'', [1, 1])], tasks = [], trace = []\<rparr>
        ''general'' (Application ''m'') None []) = [1, 1]"
    by code_simp
  have 5: "targeted None (room_members
        \<lparr>active_connections = [1, 2, 3], rooms = [(''general'', [1, 2, 3])], tasks = [], trace = []\<rparr>
        ''general'') = [1, 2, 3]"
    by (simp add: targeted_def room_members_def)
  have 6: "delivered_to (Application ''m'') (trace (fst (broadcast_to_room_live (dead 1)
        \<lparr>active_connections = [1, 2, 3], rooms = [(''general'', [1, 2, 3])], tasks = [], trace = []\<rparr>
        ''general'' (Application ''m'') None [[(dead 1, Disconnect 1)]]))) = [3]"
    by code_simp
  show ?thesis
    unfolding 1 2 3 4 5 6 by (simp add: dead_def)
qed

subsection \<open>broadcast_to_room with an excluded handle\<close>

text \<open>
  C4 where another task changes the room during the broadcast. The room lists 1, 2, 3 and 4,
  and 4 is excluded. The send to 1 raises, and while it is awaited the task of handle 1
  disconnects it: the list is then 2, 3, 4, the iterator is at index 1, and the next handle
  sent to is 3. Handle 2 was in the list when the call was made, is not the excluded one, and
  its send does not raise; it is sent nothing. The same happens when the send to 1 does not
  raise. With no other task running, 2 is sent the message.
\<close>

theorem broadcast_to_room_skips_member:
  "2 \<in> set (room_members
        \<lparr>active_connections = [1, 2, 3, 4], rooms = [(''general'', [1, 2, 3, 4])], tasks = [], trace = []\<rparr>
        ''general'')
   \<and> \<not> send_raises (dead 1) 2
   \<and> broadcast_to_room_live (dead 1)
        \<lparr>active_connections = [1, 2, 3, 4], rooms = [(''general'', [1, 2, 3, 4])], tasks = [], trace = []\<rparr>
        ''general'' (Application ''chat'') (Some 4) [[(dead 1, Disconnect 1)]]
     = (\<lparr>active_connections = [2, 3, 4], rooms = [(''general'', [2, 3, 4])],
         tasks = [(''general'', UserLeft ''general'' 3)],
         trace = [Failed 1 (Application ''chat''), Sent 3 (Application ''chat'')]\<rparr>,
        [1])
   \<and> broadcast_to_room_live all_well
        \<lparr>active_connections = [1, 2, 3, 4], rooms = [(''general'', [1, 2, 3, 4])], tasks = [], trace = []\<rparr>
        ''general'' (Application ''chat'') (Some 4) [[(all_well, Disconnect 1)]]
     = (\<lparr>active_connections = [2, 3, 4], rooms = [(''general'', [2, 3, 4])],
         tasks = [(''general'', UserLeft ''general'' 3)],
         trace = [Sent 1 (Application ''chat''), Sent 3 (Application ''chat'')]\<rparr>,
        [])
   \<and> broadcast_to_room_live (dead 1)
        \<lparr>active_connections = [1, 2, 3, 4], rooms = [(''general'', [1, 2, 3, 4])], tasks = [], trace = []\<rparr>
        ''general'' (Application ''chat'') (Some 4) []
     = (\<lparr>active_connections = [2, 3, 4], rooms = [(''general'', [2, 3, 4])],
         tasks = [(''general'', UserLeft ''general'' 3)],
         trace = [Failed 1 (Application ''chat''), Sent 2 (Application ''chat''),
                  Sent 3 (Application ''chat'')]\<rparr>,
        [1])"
proof -
  let ?h = "\<lparr>active_connections = [1, 2, 3, 4], rooms = [(''general'', [1, 2, 3, 4])],
             tasks = [], trace = []\<rparr>"
  have 1: "2 \<in> set (room_members ?h ''general'')"
    by (simp add: room_members_def)
  have 2: "\<not> send_raises (dead 1) 2"
    by (simp add: dead_def)
  have 3: "broadcast_to_room_live (dead 1) ?h ''general'' (Application ''chat'') (Some 4)
             [[(dead 1, Disconnect 1)]]
     = (\<lparr>active_connections = [2, 3, 4], rooms = [(''general'', [2, 3, 4])],
         tasks = [(''general'', UserLeft ''general'' 3)],
         trace = [Failed 1 (Application ''chat''), Sent 3 (Application ''chat'')]\<rparr>,
        [1])"
    by code_simp
  have 4: "broadcast_to_room_live all_well ?h ''general'' (Application ''chat'') (Some 4)
             [[(all_well, Disconnect 1)]]
     = (\<lparr>active_connections = [2, 3, 4], rooms = [(''general'', [2, 3, 4])],
         tasks = [(''general'', UserLeft ''general'' 3)],
         trace = [Sent 1 (Application ''chat''), Sent 3 (Application ''chat'')]\<rparr>,
        [])"
    by code_simp
  have 5: "broadcast_to_room_live (dead 1) ?h ''general'' (Application ''chat'') (Some 4) []
     = (\<lparr>active_connections = [2, 3, 4], rooms = [(''general'', [2, 3, 4])],
         tasks = [(''general'', UserLeft ''general'' 3)],
         trace = [Failed 1 (Application ''chat''), Sent 2 (Application ''chat''),
                  Sent 3 (Application ''chat'')]\<rparr>,
        [1])"
    by code_simp
  from 1 2 3 4 5 show ?thesis
    by blast
qed

end
